theory Spec2Isabelle
  imports Main
begin

section \<open>Go runtime and \<open>strings\<close> package, as far as QuerySts.go uses them\<close>

text \<open>
  A Go string is a sequence of bytes; it is modelled as \<open>string\<close> (a list of 8-bit
  characters). A run-time panic is a value of type \<open>panic\<close>; a function that can panic
  returns \<open>panic + 'a\<close>, with \<open>Inl\<close> for the panic.
\<close>

datatype panic = IndexOutOfRange | SliceBoundsOutOfRange

text \<open>\<open>xs[i]\<close>: Go checks the index against the length and panics when it is out of range.\<close>

definition index_at :: "'a list \<Rightarrow> nat \<Rightarrow> panic + 'a" where
  "index_at xs i = (if i < length xs then Inr (xs ! i) else Inl IndexOutOfRange)"

text \<open>\<open>s[i:]\<close> for an \<open>int\<close> index: panics unless \<open>0 \<le> i \<le> len(s)\<close>.\<close>

definition slice_from :: "string \<Rightarrow> int \<Rightarrow> panic + string" where
  "slice_from s i =
     (if i < 0 \<or> int (length s) < i then Inl SliceBoundsOutOfRange else Inr (drop (nat i) s))"

text \<open>\<open>make([]string, n, cap)\<close>: a slice of \<open>n\<close> empty strings (the capacity is not observable).\<close>

definition make_strings :: "nat \<Rightarrow> string list" where
  "make_strings n = replicate n []"

text \<open>\<open>strings.HasPrefix\<close>: \<open>len(s) >= len(prefix) && s[:len(prefix)] == prefix\<close>.\<close>

definition HasPrefix :: "string \<Rightarrow> string \<Rightarrow> bool" where
  "HasPrefix s pre = (length pre \<le> length s \<and> take (length pre) s = pre)"

text \<open>\<open>strings.HasSuffix\<close>: \<open>len(s) >= len(suffix) && s[len(s)-len(suffix):] == suffix\<close>.\<close>

definition HasSuffix :: "string \<Rightarrow> string \<Rightarrow> bool" where
  "HasSuffix s suf = (length suf \<le> length s \<and> drop (length s - length suf) s = suf)"

text \<open>\<open>strings.Index\<close>: the byte index of the first occurrence of \<open>substr\<close>, or \<open>-1\<close>.\<close>

fun Index :: "string \<Rightarrow> string \<Rightarrow> int" where
  "Index [] substr = (if substr = [] then 0 else - 1)"
| "Index (c # t) substr =
     (if HasPrefix (c # t) substr then 0
      else (let i = Index t substr in if i < 0 then - 1 else i + 1))"

text \<open>
  \<open>strings.Split(s, sep)\<close> for a non-empty separator cuts \<open>s\<close> at every occurrence of
  \<open>sep\<close>, found from the left by \<open>Index\<close>, and ends with the rest. The program only
  ever passes the one-byte separators \<open>":"\<close> and \<open>"\n"\<close>; for the empty separator Go
  explodes the string into its UTF-8 sequences, which on ASCII text is the list of its
  bytes as written here.
\<close>

function Split :: "string \<Rightarrow> string \<Rightarrow> string list" where
  "Split s sep =
     (if sep = [] then map (\<lambda>c. [c]) s
      else if Index s sep < 0 then [s]
      else take (nat (Index s sep)) s # Split (drop (nat (Index s sep) + length sep) s) sep)"
  by pat_completeness auto
termination
proof (relation "measure (\<lambda>(s, sep). length s)")
  show "wf (measure (\<lambda>(s, sep). length s))" by simp
next
  fix s sep :: string
  assume a: "sep \<noteq> []" "\<not> Index s sep < 0"
  then have "s \<noteq> []" by (cases s) auto
  with a show "((drop (nat (Index s sep) + length sep) s, sep), (s, sep))
                 \<in> measure (\<lambda>(s, sep). length s)"
    by (cases sep) auto
qed

text \<open>
  \<open>strings.TrimSpace\<close> removes leading and trailing white space as Unicode defines it
  (\<open>unicode.IsSpace\<close>). On the bytes of a string these are the six ASCII characters tab,
  line feed, vertical tab, form feed, carriage return and space, and the UTF-8 encodings of
  U+0085, U+00A0, U+1680, U+2000 to U+200A, U+2028, U+2029, U+202F, U+205F and U+3000.
\<close>

definition whiteSpace :: "string list" where
  "whiteSpace =
     [[CHR 0x09], [CHR 0x0A], [CHR 0x0B], [CHR 0x0C], [CHR 0x0D], [CHR 0x20],
      [CHR 0xC2, CHR 0x85], [CHR 0xC2, CHR 0xA0],
      [CHR 0xE1, CHR 0x9A, CHR 0x80],
      [CHR 0xE2, CHR 0x80, CHR 0x80], [CHR 0xE2, CHR 0x80, CHR 0x81],
      [CHR 0xE2, CHR 0x80, CHR 0x82], [CHR 0xE2, CHR 0x80, CHR 0x83],
      [CHR 0xE2, CHR 0x80, CHR 0x84], [CHR 0xE2, CHR 0x80, CHR 0x85],
      [CHR 0xE2, CHR 0x80, CHR 0x86], [CHR 0xE2, CHR 0x80, CHR 0x87],
      [CHR 0xE2, CHR 0x80, CHR 0x88], [CHR 0xE2, CHR 0x80, CHR 0x89],
      [CHR 0xE2, CHR 0x80, CHR 0x8A],
      [CHR 0xE2, CHR 0x80, CHR 0xA8], [CHR 0xE2, CHR 0x80, CHR 0xA9],
      [CHR 0xE2, CHR 0x80, CHR 0xAF], [CHR 0xE2, CHR 0x81, CHR 0x9F],
      [CHR 0xE3, CHR 0x80, CHR 0x80]]"

function TrimLeftSpace :: "string \<Rightarrow> string" where
  "TrimLeftSpace s =
     (case List.find (HasPrefix s) whiteSpace of
        None \<Rightarrow> s
      | Some w \<Rightarrow> TrimLeftSpace (drop (length w) s))"
  by pat_completeness auto
termination
proof (relation "measure length")
  show "wf (measure length)" by simp
next
  fix s w :: string
  assume f: "List.find (HasPrefix s) whiteSpace = Some w"
  then have "w \<in> set whiteSpace" and "HasPrefix s w"
    by (auto simp: find_Some_iff)
  moreover have "[] \<notin> set whiteSpace" by (simp add: whiteSpace_def)
  ultimately have "w \<noteq> []" and "HasPrefix s w" by auto
  then
  show "(drop (length w) s, s) \<in> measure length"
    by (cases s) (auto simp: HasPrefix_def)
qed

function TrimRightSpace :: "string \<Rightarrow> string" where
  "TrimRightSpace s =
     (case List.find (HasSuffix s) whiteSpace of
        None \<Rightarrow> s
      | Some w \<Rightarrow> TrimRightSpace (take (length s - length w) s))"
  by pat_completeness auto
termination
proof (relation "measure length")
  show "wf (measure length)" by simp
next
  fix s w :: string
  assume f: "List.find (HasSuffix s) whiteSpace = Some w"
  then have "w \<in> set whiteSpace" and "HasSuffix s w"
    by (auto simp: find_Some_iff)
  moreover have "[] \<notin> set whiteSpace" by (simp add: whiteSpace_def)
  ultimately have "w \<noteq> []" and "HasSuffix s w" by auto
  then
  show "(take (length s - length w) s, s) \<in> measure length"
    by (cases s) (auto simp: HasSuffix_def)
qed

definition TrimSpace :: "string \<Rightarrow> string" where
  "TrimSpace s = TrimRightSpace (TrimLeftSpace s)"

section \<open>The policy parser of QuerySts.go\<close>

text \<open>
  \<open>mxHasMatch\<close>: the loop over the declared patterns. A pattern that starts with
  \<open>"."\<close> is compared with \<open>mxHost[i:]\<close>, where \<open>i\<close> is \<open>strings.Index(mxHost, ".")\<close>;
  the slice expression is evaluated before the comparison and panics for \<open>i = -1\<close>.
\<close>

fun mxHasMatch :: "string list \<Rightarrow> string \<Rightarrow> panic + bool" where
  "mxHasMatch [] mxHost = Inr False"
| "mxHasMatch (mx # declaredMXs) mxHost =
     (if HasPrefix mx ''.'' then
        (case slice_from mxHost (Index mxHost ''.'') of
           Inl e \<Rightarrow> Inl e
         | Inr baseHost \<Rightarrow> if baseHost = mx then Inr True else mxHasMatch declaredMXs mxHost)
      else if mx = mxHost then Inr True
      else mxHasMatch declaredMXs mxHost)"

fun hasKey :: "string list \<Rightarrow> string \<Rightarrow> bool" where
  "hasKey [] key = False"
| "hasKey (line # rows) key = (if HasPrefix line key then True else hasKey rows key)"

text \<open>\<open>valueForKey\<close> reads \<open>fields[1]\<close> of the first line that starts with the key.\<close>

fun valueForKey :: "string list \<Rightarrow> string \<Rightarrow> panic + string" where
  "valueForKey [] key = Inr []"
| "valueForKey (line # rows) key =
     (if HasPrefix line key then
        (case index_at (Split line '':'') 1 of
           Inl e \<Rightarrow> Inl e
         | Inr field \<Rightarrow> Inr (TrimSpace field))
      else valueForKey rows key)"

text \<open>
  The loop of \<open>valuesForKey\<close>, with the slice \<open>results\<close> as an accumulator; the function
  starts it from \<open>make([]string, 1, 4)\<close>.
\<close>

fun valuesForKey_loop :: "string list \<Rightarrow> string \<Rightarrow> string list \<Rightarrow> panic + string list" where
  "valuesForKey_loop [] key results = Inr results"
| "valuesForKey_loop (line # rows) key results =
     (if HasPrefix line key then
        (case index_at (Split line '':'') 1 of
           Inl e \<Rightarrow> Inl e
         | Inr field \<Rightarrow> valuesForKey_loop rows key (results @ [TrimSpace field]))
      else valuesForKey_loop rows key results)"

definition valuesForKey :: "string list \<Rightarrow> string \<Rightarrow> panic + string list" where
  "valuesForKey rows key = valuesForKey_loop rows key (make_strings 1)"

fun allKeys_loop :: "string list \<Rightarrow> string list \<Rightarrow> panic + string list" where
  "allKeys_loop [] keys = Inr keys"
| "allKeys_loop (line # rows) keys =
     (case index_at (Split line '':'') 0 of
        Inl e \<Rightarrow> Inl e
      | Inr field \<Rightarrow>
          (let key = TrimSpace field
           in if key \<noteq> [] then allKeys_loop rows (keys @ [key]) else allKeys_loop rows keys))"

definition allKeys :: "string list \<Rightarrow> panic + string list" where
  "allKeys rows = allKeys_loop rows (make_strings 1)"

text \<open>
  \<open>mxRecords\<close> without the DNS query: \<open>hosts\<close> are the host names that
  \<open>net.LookupMX\<close> answered, in its order.
\<close>

definition trimSuffix :: "string \<Rightarrow> string \<Rightarrow> string" where
  "trimSuffix s suffix = (if HasSuffix s suffix then take (length s - length suffix) s else s)"

definition normalizeDomain :: "string \<Rightarrow> string" where
  "normalizeDomain domain = (if HasSuffix domain ''.'' then trimSuffix domain ''.'' else domain)"

definition mxRecords :: "string list \<Rightarrow> string list" where
  "mxRecords hosts = make_strings 1 @ map normalizeDomain hosts"

section \<open>The validation in \<open>main\<close>\<close>

text \<open>
  \<open>main\<close> prints each finding when it meets it. The messages are the constructors of
  \<open>finding\<close>, \<open>render\<close> gives the text printed, and the output of a run is the list of
  findings printed so far together with the panic that ended the run, if one did.
\<close>

datatype finding =
    MissingVersion
  | VersionNotSTSv1
  | InvalidMode string
  | MissingMaxAge
  | UnknownKey string
  | UndefinedMX string

fun render :: "finding \<Rightarrow> string" where
  "render MissingVersion =
     ''Error the policy resource must contain a version field'' @ [CHR 0x0A]"
| "render VersionNotSTSv1 = ''Error version must equal 'STSv1'' @ [CHR 0x27, CHR 0x0A]"
| "render (InvalidMode mode) =
     ''Error mode must be one of 'report', 'enforce', 'none' but was '' @ mode"
| "render MissingMaxAge = ''Error policy resource should have a 'max_age' field.''"
| "render (UnknownKey key) = ''Error unknown key in policy ['' @ key @ '']'' @ [CHR 0x0A]"
| "render (UndefinedMX record) = ''Error undefined MX record ['' @ record @ '']'' @ [CHR 0x0A]"

type_synonym run = "finding list \<times> panic option"

text \<open>The loop over \<open>allKeys\<close> (lines 74 to 78).\<close>

fun unknownKeys :: "string list \<Rightarrow> finding list" where
  "unknownKeys [] = []"
| "unknownKeys (key # keys) =
     (if key \<noteq> [] \<and> key \<noteq> ''version'' \<and> key \<noteq> ''mode'' \<and> key \<noteq> ''max_age'' \<and> key \<noteq> ''mx''
      then UnknownKey key # unknownKeys keys
      else unknownKeys keys)"

text \<open>The loop over the resolved records (lines 81 to 87); \<open>out\<close> is what was printed before.\<close>

fun crossCheck :: "string list \<Rightarrow> string list \<Rightarrow> finding list \<Rightarrow> run" where
  "crossCheck mxs [] out = (out, None)"
| "crossCheck mxs (record # records) out =
     (if length record > 0 then
        (case mxHasMatch mxs record of
           Inl e \<Rightarrow> (out, Some e)
         | Inr matched \<Rightarrow>
             crossCheck mxs records (if \<not> matched then out @ [UndefinedMX record] else out))
      else crossCheck mxs records out)"

text \<open>
  Lines 53 to 88 of \<open>main\<close>: \<open>policyResource\<close> is the body that the HTTPS request
  returned and \<open>records\<close> the result of \<open>mxRecords\<close>.
\<close>

definition validateRows :: "string list \<Rightarrow> string list \<Rightarrow> run" where
  "validateRows policyRows records =
     (let out1 = (if \<not> hasKey policyRows ''version'' then [MissingVersion] else [])
      in (case valueForKey policyRows ''version'' of
            Inl e \<Rightarrow> (out1, Some e)
          | Inr version \<Rightarrow>
     (let out2 = out1 @ (if version \<noteq> ''STSv1'' then [VersionNotSTSv1] else [])
      in (case valueForKey policyRows ''mode'' of
            Inl e \<Rightarrow> (out2, Some e)
          | Inr mode \<Rightarrow>
     (let out3 = out2 @ (if mode \<noteq> ''report'' \<and> mode \<noteq> ''enforce'' \<and> mode \<noteq> ''none''
                         then [InvalidMode mode] else []);
          out4 = out3 @ (if \<not> hasKey policyRows ''max_age'' then [MissingMaxAge] else [])
      in (case allKeys policyRows of
            Inl e \<Rightarrow> (out4, Some e)
          | Inr keys \<Rightarrow>
     (let out5 = out4 @ unknownKeys keys
      in (case valuesForKey policyRows ''mx'' of
            Inl e \<Rightarrow> (out5, Some e)
          | Inr mxs \<Rightarrow> crossCheck mxs records out5))))))))"

definition validate :: "string \<Rightarrow> string list \<Rightarrow> run" where
  "validate policyResource records = validateRows (Split policyResource [CHR 0x0A]) records"

text \<open>The two separators that the statements below are about.\<close>

abbreviation colon :: char where "colon \<equiv> CHR '':''"
abbreviation dot :: char where "dot \<equiv> CHR ''.''"

section \<open>Facts about the library functions\<close>

declare Split.simps [simp del] TrimLeftSpace.simps [simp del] TrimRightSpace.simps [simp del]

lemma HasPrefix_Nil [simp]: "HasPrefix s []"
  by (simp add: HasPrefix_def)

lemma HasPrefix_iff: "HasPrefix s pre \<longleftrightarrow> (\<exists>t. s = pre @ t)"
proof
  assume "HasPrefix s pre"
  then have "s = pre @ drop (length pre) s"
    by (metis HasPrefix_def append_take_drop_id)
  then show "\<exists>t. s = pre @ t" ..
next
  assume "\<exists>t. s = pre @ t"
  then show "HasPrefix s pre" by (auto simp: HasPrefix_def)
qed

lemma HasPrefix_single: "HasPrefix s [c] \<longleftrightarrow> (\<exists>t. s = c # t)"
  by (cases s) (auto simp: HasPrefix_def)

lemma takeWhile_absent: "c \<notin> set s \<Longrightarrow> takeWhile (\<lambda>x. x \<noteq> c) s = s"
  by (induction s) auto

lemma Index_char:
  "Index s [c] = (if c \<in> set s then int (length (takeWhile (\<lambda>x. x \<noteq> c) s)) else - 1)"
  by (induction s) (auto simp: HasPrefix_single Let_def)

lemma slice_from_Index_char:
  "slice_from s (Index s [c]) =
     (if c \<in> set s then Inr (dropWhile (\<lambda>x. x \<noteq> c) s) else Inl SliceBoundsOutOfRange)"
  using length_takeWhile_le [of "\<lambda>x. x \<noteq> c" s]
  by (simp add: slice_from_def Index_char dropWhile_eq_drop not_less)

lemma Split_char:
  "Split s [c] =
     (if c \<in> set s
      then takeWhile (\<lambda>x. x \<noteq> c) s # Split (tl (dropWhile (\<lambda>x. x \<noteq> c) s)) [c]
      else [s])"
  by (subst Split.simps)
    (simp add: Index_char dropWhile_eq_drop drop_Suc tl_drop takeWhile_eq_take [symmetric])

lemma fields_0:
  "index_at (Split line [c]) 0 = Inr (takeWhile (\<lambda>x. x \<noteq> c) line)"
  by (subst Split_char) (simp add: index_at_def takeWhile_absent)

lemma fields_1:
  "index_at (Split line [c]) (Suc 0) =
     (if c \<in> set line
      then Inr (takeWhile (\<lambda>x. x \<noteq> c) (tl (dropWhile (\<lambda>x. x \<noteq> c) line)))
      else Inl IndexOutOfRange)"
proof (cases "c \<in> set line")
  case True
  let ?r = "tl (dropWhile (\<lambda>x. x \<noteq> c) line)"
  have "Split line [c] = takeWhile (\<lambda>x. x \<noteq> c) line # Split ?r [c]"
    using True by (subst Split_char) simp
  then have "index_at (Split line [c]) (Suc 0) = index_at (Split ?r [c]) 0"
    by (simp add: index_at_def)
  with True show ?thesis by (simp add: fields_0)
next
  case False
  then show ?thesis by (subst Split_char) (simp add: index_at_def)
qed

section \<open>Facts about the parser\<close>

lemma hasKey_iff: "hasKey rows key \<longleftrightarrow> (\<exists>line\<in>set rows. HasPrefix line key)"
  by (induction rows) auto

lemma valueForKey_absent:
  "\<forall>line\<in>set rows. \<not> HasPrefix line key \<Longrightarrow> valueForKey rows key = Inr []"
  by (induction rows) auto

lemma valueForKey_first:
  assumes "\<forall>l\<in>set pre. \<not> HasPrefix l key" and "HasPrefix line key"
  shows "valueForKey (pre @ line # post) key =
           (if colon \<in> set line
            then Inr (TrimSpace (takeWhile (\<lambda>c. c \<noteq> colon) (tl (dropWhile (\<lambda>c. c \<noteq> colon) line))))
            else Inl IndexOutOfRange)"
  using assms by (induction pre) (auto simp: fields_1)

lemma valuesForKey_loop_ok:
  "\<forall>l\<in>set rows. HasPrefix l key \<longrightarrow> colon \<in> set l \<Longrightarrow>
   valuesForKey_loop rows key results =
     Inr (results @
          map (\<lambda>l. TrimSpace (takeWhile (\<lambda>c. c \<noteq> colon) (tl (dropWhile (\<lambda>c. c \<noteq> colon) l))))
            (filter (\<lambda>l. HasPrefix l key) rows))"
  by (induction rows arbitrary: results) (auto simp: fields_1)

lemma valuesForKey_loop_panic:
  "\<exists>l\<in>set rows. HasPrefix l key \<and> colon \<notin> set l \<Longrightarrow>
   valuesForKey_loop rows key results = Inl IndexOutOfRange"
  by (induction rows arbitrary: results) (auto simp: fields_1)

lemma allKeys_loop_eq:
  "allKeys_loop rows keys =
     Inr (keys @ filter (\<lambda>k. k \<noteq> [])
                   (map (\<lambda>l. TrimSpace (takeWhile (\<lambda>c. c \<noteq> colon) l)) rows))"
  by (induction rows arbitrary: keys) (auto simp: fields_0 Let_def)

lemma HasPrefix_dot_dropWhile:
  "dot \<in> set host \<Longrightarrow> HasPrefix (dropWhile (\<lambda>c. c \<noteq> dot) host) [dot]"
  by (induction host) (auto simp: HasPrefix_single)

lemma mxHasMatch_dotted:
  "dot \<in> set host \<Longrightarrow>
   mxHasMatch declared host =
     Inr (\<exists>p\<in>set declared.
            if HasPrefix p ''.'' then dropWhile (\<lambda>c. c \<noteq> dot) host = p else p = host)"
  by (induction declared) (auto simp: slice_from_Index_char)

lemma mxHasMatch_no_wildcard:
  "\<forall>p\<in>set declared. \<not> HasPrefix p ''.'' \<Longrightarrow> mxHasMatch declared host = Inr (host \<in> set declared)"
  by (induction declared) auto

lemma mxHasMatch_dotfree:
  "dot \<notin> set host \<Longrightarrow>
   mxHasMatch declared host =
     (if host \<in> set (takeWhile (\<lambda>p. \<not> HasPrefix p ''.'') declared) then Inr True
      else if \<exists>p\<in>set declared. HasPrefix p ''.'' then Inl SliceBoundsOutOfRange
      else Inr False)"
  by (induction declared) (auto simp: slice_from_Index_char)

section \<open>Facts about the validation\<close>

lemma allKeys_eq:
  "allKeys rows =
     Inr ([] # filter (\<lambda>k. k \<noteq> [])
                 (map (\<lambda>l. TrimSpace (takeWhile (\<lambda>c. c \<noteq> colon) l)) rows))"
  by (simp add: allKeys_def make_strings_def allKeys_loop_eq)

lemma unknownKeys_eq:
  "unknownKeys keys =
     map UnknownKey
       (filter (\<lambda>k. k \<noteq> [] \<and> k \<noteq> ''version'' \<and> k \<noteq> ''mode'' \<and> k \<noteq> ''max_age'' \<and> k \<noteq> ''mx'')
          keys)"
  by (induction keys) auto

lemma crossCheck_appends:
  "\<exists>ms. fst (crossCheck mxs records out) = out @ map UndefinedMX ms"
proof (induction records arbitrary: out)
  case Nil
  show ?case by simp
next
  case (Cons r rs)
  show ?case
  proof (cases "r = []")
    case True
    with Cons show ?thesis by simp
  next
    case False
    show ?thesis
    proof (cases "mxHasMatch mxs r")
      case (Inl e)
      with False show ?thesis by simp
    next
      case (Inr b)
      show ?thesis
      proof (cases b)
        case True
        with False Inr Cons show ?thesis by simp
      next
        case nomatch: False
        from Cons [of "out @ [UndefinedMX r]"] obtain ms
          where "fst (crossCheck mxs rs (out @ [UndefinedMX r])) = out @ map UndefinedMX (r # ms)"
          by auto
        with False Inr nomatch show ?thesis by (auto simp del: list.map)
      qed
    qed
  qed
qed

lemma crossCheck_complete:
  "\<forall>r\<in>set records. r \<noteq> [] \<longrightarrow> (\<exists>b. mxHasMatch mxs r = Inr b) \<Longrightarrow>
   crossCheck mxs records out =
     (out @ map UndefinedMX (filter (\<lambda>r. r \<noteq> [] \<and> mxHasMatch mxs r = Inr False) records), None)"
  by (induction records arbitrary: out) auto

lemma crossCheck_returns:
  "snd (crossCheck mxs records out) = None \<Longrightarrow>
   \<forall>r\<in>set records. r \<noteq> [] \<longrightarrow> (\<exists>b. mxHasMatch mxs r = Inr b)"
  by (induction records arbitrary: out) (auto split: sum.splits if_splits)

lemma validateRows_returns:
  assumes "valueForKey rows ''version'' = Inr version"
    and "valueForKey rows ''mode'' = Inr mode"
    and "valuesForKey rows ''mx'' = Inr mxs"
  shows "validateRows rows records =
           crossCheck mxs records
             ((if \<not> hasKey rows ''version'' then [MissingVersion] else [])
              @ (if version \<noteq> ''STSv1'' then [VersionNotSTSv1] else [])
              @ (if mode \<noteq> ''report'' \<and> mode \<noteq> ''enforce'' \<and> mode \<noteq> ''none''
                 then [InvalidMode mode] else [])
              @ (if \<not> hasKey rows ''max_age'' then [MissingMaxAge] else [])
              @ unknownKeys
                  (filter (\<lambda>k. k \<noteq> [])
                     (map (\<lambda>l. TrimSpace (takeWhile (\<lambda>c. c \<noteq> colon) l)) rows)))"
  by (simp add: validateRows_def Let_def assms allKeys_eq)

lemma validateRows_no_panic:
  assumes "snd (validateRows rows records) = None"
  shows "\<exists>version mode mxs.
           valueForKey rows ''version'' = Inr version \<and> valueForKey rows ''mode'' = Inr mode
           \<and> valuesForKey rows ''mx'' = Inr mxs
           \<and> (\<forall>r\<in>set records. r \<noteq> [] \<longrightarrow> (\<exists>b. mxHasMatch mxs r = Inr b))"
proof -
  obtain version where v: "valueForKey rows ''version'' = Inr version"
    using assms by (cases "valueForKey rows ''version''") (auto simp: validateRows_def Let_def)
  obtain mode where m: "valueForKey rows ''mode'' = Inr mode"
    using assms v by (cases "valueForKey rows ''mode''") (auto simp: validateRows_def Let_def)
  obtain mxs where x: "valuesForKey rows ''mx'' = Inr mxs"
    using assms v m
    by (cases "valuesForKey rows ''mx''") (auto simp: validateRows_def Let_def allKeys_eq)
  from assms have "\<forall>r\<in>set records. r \<noteq> [] \<longrightarrow> (\<exists>b. mxHasMatch mxs r = Inr b)"
    unfolding validateRows_returns [OF v m x] by (rule crossCheck_returns)
  with v m x show ?thesis by blast
qed

lemma validateRows_after_version:
  assumes "valueForKey rows ''version'' = Inr version"
  shows "\<exists>rest. fst (validateRows rows records) =
           (if \<not> hasKey rows ''version'' then [MissingVersion] else [])
           @ (if version \<noteq> ''STSv1'' then [VersionNotSTSv1] else []) @ rest
         \<and> MissingVersion \<notin> set rest \<and> VersionNotSTSv1 \<notin> set rest"
proof (cases "valueForKey rows ''mode''")
  case (Inl e)
  with assms show ?thesis by (simp add: validateRows_def Let_def)
next
  case mode: (Inr mode)
  show ?thesis
  proof (cases "valuesForKey rows ''mx''")
    case (Inl e)
    with assms mode show ?thesis
      by (auto simp: validateRows_def Let_def allKeys_eq unknownKeys_eq)
  next
    case (Inr mxs)
    let ?out = "(if \<not> hasKey rows ''version'' then [MissingVersion] else [])
              @ (if version \<noteq> ''STSv1'' then [VersionNotSTSv1] else [])
              @ (if mode \<noteq> ''report'' \<and> mode \<noteq> ''enforce'' \<and> mode \<noteq> ''none''
                 then [InvalidMode mode] else [])
              @ (if \<not> hasKey rows ''max_age'' then [MissingMaxAge] else [])
              @ unknownKeys
                  (filter (\<lambda>k. k \<noteq> [])
                     (map (\<lambda>l. TrimSpace (takeWhile (\<lambda>c. c \<noteq> colon) l)) rows))"
    obtain ms where "fst (crossCheck mxs records ?out) = ?out @ map UndefinedMX ms"
      using crossCheck_appends by blast
    then show ?thesis
      unfolding validateRows_returns [OF assms mode Inr]
      by (auto simp: unknownKeys_eq)
  qed
qed

lemma validateRows_findings_in_order:
  assumes "valueForKey rows ''version'' = Inr version"
    and "valueForKey rows ''mode'' = Inr mode"
    and "valuesForKey rows ''mx'' = Inr mxs"
    and "\<forall>r\<in>set records. r \<noteq> [] \<longrightarrow> (\<exists>b. mxHasMatch mxs r = Inr b)"
  shows "validateRows rows records =
           ((if \<not> hasKey rows ''version'' then [MissingVersion] else [])
            @ (if version \<noteq> ''STSv1'' then [VersionNotSTSv1] else [])
            @ (if mode \<noteq> ''report'' \<and> mode \<noteq> ''enforce'' \<and> mode \<noteq> ''none''
               then [InvalidMode mode] else [])
            @ (if \<not> hasKey rows ''max_age'' then [MissingMaxAge] else [])
            @ map UnknownKey
                (filter (\<lambda>k. k \<noteq> [] \<and> k \<noteq> ''version'' \<and> k \<noteq> ''mode'' \<and> k \<noteq> ''max_age''
                              \<and> k \<noteq> ''mx'')
                   (map (\<lambda>l. TrimSpace (takeWhile (\<lambda>c. c \<noteq> colon) l)) rows))
            @ map UndefinedMX
                (filter (\<lambda>r. r \<noteq> [] \<and> mxHasMatch mxs r = Inr False) records),
            None)"
  unfolding validateRows_returns [OF assms(1-3)] crossCheck_complete [OF assms(4)]
  by (simp add: unknownKeys_eq filter_map comp_def cong: conj_cong)

lemma validateRows_mode_absent:
  assumes "\<forall>line\<in>set rows. \<not> HasPrefix line ''mode''"
    and "valueForKey rows ''version'' = Inr version"
  shows "InvalidMode [] \<in> set (fst (validateRows rows records))"
proof -
  from assms(1) have m: "valueForKey rows ''mode'' = Inr []" by (rule valueForKey_absent)
  show ?thesis
  proof (cases "valuesForKey rows ''mx''")
    case (Inl e)
    with assms(2) m show ?thesis by (simp add: validateRows_def Let_def allKeys_eq)
  next
    case (Inr mxs)
    let ?out = "(if \<not> hasKey rows ''version'' then [MissingVersion] else [])
              @ (if version \<noteq> ''STSv1'' then [VersionNotSTSv1] else [])
              @ (if [] \<noteq> ''report'' \<and> [] \<noteq> ''enforce'' \<and> [] \<noteq> ''none''
                 then [InvalidMode []] else [])
              @ (if \<not> hasKey rows ''max_age'' then [MissingMaxAge] else [])
              @ unknownKeys
                  (filter (\<lambda>k. k \<noteq> [])
                     (map (\<lambda>l. TrimSpace (takeWhile (\<lambda>c. c \<noteq> colon) l)) rows))"
    obtain ms where "fst (crossCheck mxs records ?out) = ?out @ map UndefinedMX ms"
      using crossCheck_appends by blast
    then show ?thesis
      unfolding validateRows_returns [OF assms(2) m Inr] by simp
  qed
qed

section \<open>The claims\<close>

text \<open>
  C1 (parsing is total: \<open>valueForKey\<close> and \<open>valuesForKey\<close> complete normally on every
  input, also on a line that begins with the queried key and contains no colon). The code
  does not: for the policy body \<open>version\<close>, whose only line starts with the key and has
  no colon, \<open>valueForKey\<close> and \<open>valuesForKey\<close> read \<open>fields[1]\<close> of a one-element
  slice and panic, and the validation in \<open>main\<close> ends with that panic before it prints
  anything. \<open>hasKey\<close> and \<open>allKeys\<close> return on the same line.
\<close>

theorem valueForKey_panics_without_colon:
  "valueForKey [''version''] ''version'' = Inl IndexOutOfRange
   \<and> valuesForKey [''version''] ''version'' = Inl IndexOutOfRange
   \<and> hasKey [''version''] ''version''
   \<and> allKeys [''version''] = Inr ['''', ''version'']
   \<and> validate ''version'' (mxRecords []) = ([], Some IndexOutOfRange)"
  by code_simp

text \<open>
  C2 (the one-level wildcard rule of \<open>mxHasMatch\<close>). A single declared pattern makes
  \<open>mxHasMatch\<close> return true exactly when, for a pattern that begins with a dot, the host
  contains a dot and its suffix from its first dot on is the pattern, and, for any other
  pattern, the pattern is the host. For a host that contains a dot the result for a list of
  patterns is whether one of them matches in this sense. So \<open>.example.com\<close> matches
  \<open>mail.example.com\<close> and does not match \<open>a.mail.example.com\<close>.
\<close>

theorem mxHasMatch_one_level_wildcard:
  "(mxHasMatch [mx] host = Inr True \<longleftrightarrow>
      (if HasPrefix mx ''.''
       then dot \<in> set host \<and> dropWhile (\<lambda>c. c \<noteq> dot) host = mx
       else mx = host))
   \<and> (dot \<in> set host \<longrightarrow>
        mxHasMatch declared host =
          Inr (\<exists>p\<in>set declared.
                 if HasPrefix p ''.'' then dropWhile (\<lambda>c. c \<noteq> dot) host = p else p = host))
   \<and> mxHasMatch [''.example.com''] ''mail.example.com'' = Inr True
   \<and> mxHasMatch [''.example.com''] ''a.mail.example.com'' = Inr False"
proof (intro conjI impI)
  show "mxHasMatch [mx] host = Inr True \<longleftrightarrow>
      (if HasPrefix mx ''.''
       then dot \<in> set host \<and> dropWhile (\<lambda>c. c \<noteq> dot) host = mx
       else mx = host)"
    by (auto simp: slice_from_Index_char)
  show "mxHasMatch [''.example.com''] ''mail.example.com'' = Inr True" by code_simp
  show "mxHasMatch [''.example.com''] ''a.mail.example.com'' = Inr False" by code_simp
qed (rule mxHasMatch_dotted)

theorem mxHasMatch_one_level_wildcard_witness:
  "dot \<in> set ''mail.example.com''
   \<and> mxHasMatch ['''', ''mx1.example.com'', ''.example.com''] ''mail.example.com'' = Inr True
   \<and> mxHasMatch [''.example.com''] ''a.mail.example.com'' \<noteq> Inr True
   \<and> mxHasMatch [''mail.example.com''] ''mail.example.com'' = Inr True"
  using mxHasMatch_one_level_wildcard
          [of "''.example.com''" "''a.mail.example.com''"
              "['''', ''mx1.example.com'', ''.example.com'']"]
        mxHasMatch_one_level_wildcard
          [of "''mail.example.com''" "''mail.example.com''"
              "['''', ''mx1.example.com'', ''.example.com'']"]
  by (simp add: HasPrefix_def)

text \<open>
  C3, as amended (a policy text with no line that starts with \<open>version\<close>). The first two
  findings printed are the missing-version finding and the finding that the version must
  equal \<open>STSv1\<close>, in this order, and they are the only findings about the version that
  the run prints: the comparison with \<open>STSv1\<close> is made on the empty string that
  \<open>valueForKey\<close> returns for an absent key.
\<close>

theorem missing_version_two_findings:
  assumes "\<forall>line\<in>set (Split policyResource [CHR 0x0A]). \<not> HasPrefix line ''version''"
  shows "take 2 (fst (validate policyResource records)) = [MissingVersion, VersionNotSTSv1]
         \<and> filter (\<lambda>f. f = MissingVersion \<or> f = VersionNotSTSv1)
              (fst (validate policyResource records)) = [MissingVersion, VersionNotSTSv1]"
proof -
  let ?rows = "Split policyResource [CHR 0x0A]"
  from assms have v: "valueForKey ?rows ''version'' = Inr []"
    by (rule valueForKey_absent)
  from assms have h: "\<not> hasKey ?rows ''version''" by (simp add: hasKey_iff)
  from validateRows_after_version [OF v, of records] h obtain rest
    where "fst (validateRows ?rows records) = [MissingVersion, VersionNotSTSv1] @ rest"
      and "MissingVersion \<notin> set rest" and "VersionNotSTSv1 \<notin> set rest"
    by auto
  then show ?thesis by (auto simp: validate_def filter_empty_conv)
qed

theorem missing_version_two_findings_witness:
  "take 2 (fst (validate (''mode: enforce'' @ [CHR 0x0A] @ ''max_age: 86400'') (mxRecords [])))
     = [MissingVersion, VersionNotSTSv1]"
proof -
  have "Split (''mode: enforce'' @ [CHR 0x0A] @ ''max_age: 86400'') [CHR 0x0A]
          = [''mode: enforce'', ''max_age: 86400'']"
    by code_simp
  then show ?thesis
    using missing_version_two_findings
            [of "''mode: enforce'' @ [CHR 0x0A] @ ''max_age: 86400''" "mxRecords []"]
    by (simp add: HasPrefix_def)
qed

text \<open>
  The claim as it was stated fails on the two-line policy \<open>mode: enforce\<close>,
  \<open>max_age: 86400\<close>: no line starts with \<open>version\<close>, and the run prints both findings.
\<close>

theorem missing_version_counterexample:
  "\<not> hasKey (Split (''mode: enforce'' @ [CHR 0x0A] @ ''max_age: 86400'') [CHR 0x0A]) ''version''
   \<and> validate (''mode: enforce'' @ [CHR 0x0A] @ ''max_age: 86400'') (mxRecords [])
       = ([MissingVersion, VersionNotSTSv1], None)"
  by code_simp

text \<open>
  C4, as amended (the value that \<open>valueForKey\<close> returns). When the first line that starts
  with the key contains a colon, \<open>valueForKey\<close> returns the trimmed text between the
  first colon of that line and its second colon, or the end of the line when there is no
  second colon; in that last case this is the trimmed remainder of the line after the first
  colon.
\<close>

theorem valueForKey_second_field:
  assumes "\<forall>l\<in>set pre. \<not> HasPrefix l key" and "HasPrefix line key" and "colon \<in> set line"
  shows "valueForKey (pre @ line # post) key =
           Inr (TrimSpace (takeWhile (\<lambda>c. c \<noteq> colon) (tl (dropWhile (\<lambda>c. c \<noteq> colon) line))))
         \<and> (colon \<notin> set (tl (dropWhile (\<lambda>c. c \<noteq> colon) line)) \<longrightarrow>
              valueForKey (pre @ line # post) key =
                Inr (TrimSpace (tl (dropWhile (\<lambda>c. c \<noteq> colon) line))))"
  using assms by (simp add: valueForKey_first takeWhile_absent)

theorem valueForKey_second_field_witness:
  "valueForKey [''version: STSv1'', ''mx: a:b'', ''mx: c''] ''mx'' = Inr ''a''
   \<and> valueForKey [''version: STSv1'', ''mx: a:b'', ''mx: c''] ''version'' = Inr ''STSv1''"
proof -
  have t: "TrimSpace '' a'' = ''a''" "TrimSpace '' STSv1'' = ''STSv1''"
    by code_simp+
  show ?thesis
    using valueForKey_second_field
            [of "[''version: STSv1'']" "''mx''" "''mx: a:b''" "[''mx: c'']"]
          valueForKey_second_field
            [of "[]" "''version''" "''version: STSv1''" "[''mx: a:b'', ''mx: c'']"]
    by (simp add: HasPrefix_def t del: valueForKey.simps)
qed

text \<open>
  The claim as it was stated fails on the line \<open>mx: a:b\<close>: the trimmed remainder after
  the first colon is \<open>a:b\<close>, and \<open>valueForKey\<close> returns \<open>a\<close>.
\<close>

theorem valueForKey_remainder_counterexample:
  "HasPrefix ''mx: a:b'' ''mx''
   \<and> colon \<in> set ''mx: a:b''
   \<and> valueForKey [''mx: a:b''] ''mx'' = Inr ''a''
   \<and> TrimSpace '' a:b'' = ''a:b''"
  by code_simp

text \<open>
  C5 (the findings come in the fixed order and every applicable finding is emitted). The
  code stops at a panic and prints nothing after it. For the three-line policy
  \<open>version: STSv2\<close>, \<open>mode\<close>, \<open>foo: bar\<close> it prints the version finding and panics
  in the lookup of \<open>mode\<close>; the missing \<open>max_age\<close> finding and the unknown-key finding
  for \<open>foo\<close>, both applicable, are never printed. For a policy with the pattern
  \<open>.example.com\<close> and the resolved hosts \<open>localhost\<close> and \<open>mx.example.org\<close> it
  panics in \<open>mxHasMatch\<close> on the first host and never reports the second, which no
  pattern matches.
\<close>

theorem validate_stops_at_panic:
  "validate (''version: STSv2'' @ [CHR 0x0A] @ ''mode'' @ [CHR 0x0A] @ ''foo: bar'') (mxRecords [])
     = ([VersionNotSTSv1], Some IndexOutOfRange)
   \<and> \<not> hasKey (Split (''version: STSv2'' @ [CHR 0x0A] @ ''mode'' @ [CHR 0x0A] @ ''foo: bar'')
                 [CHR 0x0A]) ''max_age''
   \<and> allKeys (Split (''version: STSv2'' @ [CHR 0x0A] @ ''mode'' @ [CHR 0x0A] @ ''foo: bar'')
                [CHR 0x0A]) = Inr ['''', ''version'', ''mode'', ''foo'']
   \<and> unknownKeys ['''', ''version'', ''mode'', ''foo''] = [UnknownKey ''foo'']
   \<and> validate (''version: STSv1'' @ [CHR 0x0A] @ ''mode: none'' @ [CHR 0x0A]
                @ ''max_age: 86400'' @ [CHR 0x0A] @ ''mx: .example.com'')
         (mxRecords [''localhost.'', ''mx.example.org.''])
       = ([], Some SliceBoundsOutOfRange)
   \<and> mxHasMatch ['''', ''.example.com''] ''mx.example.org'' = Inr False"
  by code_simp

text \<open>
  C6 (cross-check completeness). With the declared patterns \<open>[mx1.example.com]\<close>, as
  \<open>valuesForKey\<close> returns them or without the leading empty string, and the resolved
  hosts \<open>mx1.example.com\<close> and \<open>mx2.example.com\<close>, the cross-check adds exactly one
  finding to what was printed before, the undefined-MX finding for \<open>mx2.example.com\<close>.
  Hence every policy whose \<open>mx\<close> lines declare just that pattern, and whose validation
  runs to its end, has this one undefined-MX finding among its findings.
\<close>

theorem cross_check_completeness:
  "crossCheck ['''', ''mx1.example.com'']
       (mxRecords [''mx1.example.com'', ''mx2.example.com'']) out
     = (out @ [UndefinedMX ''mx2.example.com''], None)
   \<and> crossCheck [''mx1.example.com'']
       (mxRecords [''mx1.example.com'', ''mx2.example.com'']) out
     = (out @ [UndefinedMX ''mx2.example.com''], None)
   \<and> (valuesForKey (Split policyResource [CHR 0x0A]) ''mx'' = Inr ['''', ''mx1.example.com'']
        \<and> snd (validate policyResource (mxRecords [''mx1.example.com'', ''mx2.example.com'']))
            = None
        \<longrightarrow> filter (\<lambda>f. \<exists>host. f = UndefinedMX host)
              (fst (validate policyResource
                      (mxRecords [''mx1.example.com'', ''mx2.example.com''])))
            = [UndefinedMX ''mx2.example.com''])"
proof -
  let ?records = "mxRecords [''mx1.example.com'', ''mx2.example.com'']"
  have r: "?records = ['''', ''mx1.example.com'', ''mx2.example.com'']"
    by code_simp
  have c1: "crossCheck ['''', ''mx1.example.com''] ?records out
              = (out @ [UndefinedMX ''mx2.example.com''], None)" for out
    unfolding r by (simp add: HasPrefix_def)
  have c2: "crossCheck [''mx1.example.com''] ?records out
              = (out @ [UndefinedMX ''mx2.example.com''], None)" for out
    unfolding r by (simp add: HasPrefix_def)
  have "filter (\<lambda>f. \<exists>host. f = UndefinedMX host) (fst (validate policyResource ?records))
          = [UndefinedMX ''mx2.example.com'']"
    if x: "valuesForKey (Split policyResource [CHR 0x0A]) ''mx'' = Inr ['''', ''mx1.example.com'']"
      and n: "snd (validate policyResource ?records) = None"
  proof -
    let ?rows = "Split policyResource [CHR 0x0A]"
    from n obtain version mode mxs
      where v: "valueForKey ?rows ''version'' = Inr version"
        and m: "valueForKey ?rows ''mode'' = Inr mode"
      using validateRows_no_panic [of ?rows ?records] by (auto simp: validate_def)
    show ?thesis
      unfolding validate_def validateRows_returns [OF v m x] c1
      by (simp add: unknownKeys_eq filter_empty_conv)
  qed
  with c1 c2 show ?thesis by blast
qed

theorem cross_check_completeness_witness:
  "filter (\<lambda>f. \<exists>host. f = UndefinedMX host)
     (fst (validate (''version: STSv1'' @ [CHR 0x0A] @ ''mode: enforce'' @ [CHR 0x0A]
                     @ ''max_age: 86400'' @ [CHR 0x0A] @ ''mx: mx1.example.com'')
             (mxRecords [''mx1.example.com'', ''mx2.example.com''])))
     = [UndefinedMX ''mx2.example.com'']
   \<and> validate (''version: STSv1'' @ [CHR 0x0A] @ ''mode: enforce'' @ [CHR 0x0A]
                @ ''max_age: 86400'' @ [CHR 0x0A] @ ''mx: mx1.example.com'')
         (mxRecords [''mx1.example.com'', ''mx2.example.com''])
       = ([UndefinedMX ''mx2.example.com''], None)"
proof -
  let ?policy = "''version: STSv1'' @ [CHR 0x0A] @ ''mode: enforce'' @ [CHR 0x0A]
                 @ ''max_age: 86400'' @ [CHR 0x0A] @ ''mx: mx1.example.com''"
  have x: "valuesForKey (Split ?policy [CHR 0x0A]) ''mx'' = Inr ['''', ''mx1.example.com'']"
    by code_simp
  have e: "validate ?policy (mxRecords [''mx1.example.com'', ''mx2.example.com''])
             = ([UndefinedMX ''mx2.example.com''], None)"
    by code_simp
  from e have n: "snd (validate ?policy (mxRecords [''mx1.example.com'', ''mx2.example.com'']))
                    = None"
    by simp
  from cross_check_completeness [of "[]" ?policy] x n
  have "filter (\<lambda>f. \<exists>host. f = UndefinedMX host)
          (fst (validate ?policy (mxRecords [''mx1.example.com'', ''mx2.example.com''])))
        = [UndefinedMX ''mx2.example.com'']"
    by blast
  with e show ?thesis by blast
qed

text \<open>
  C7 (\<open>hasKey\<close> is a prefix test on the raw line). \<open>hasKey rows key\<close> is true exactly
  when some line of \<open>rows\<close>, as it stands, has \<open>key\<close> as a prefix. For the one-line
  policy \<open>versions: version1\<close> the only extracted key is \<open>versions\<close>, the value
  \<open>version1\<close> begins with the reserved key name \<open>version\<close>, and \<open>hasKey\<close> is true
  for \<open>version\<close>.
\<close>

theorem hasKey_raw_prefix:
  "(hasKey rows key \<longleftrightarrow> (\<exists>line\<in>set rows. HasPrefix line key))
   \<and> (hasKey rows key \<longleftrightarrow> (\<exists>line\<in>set rows. \<exists>rest. line = key @ rest))
   \<and> hasKey [''versions: version1''] ''version''
   \<and> allKeys [''versions: version1''] = Inr ['''', ''versions'']
   \<and> valueForKey [''versions: version1''] ''versions'' = Inr ''version1''
   \<and> HasPrefix ''version1'' ''version''"
proof (intro conjI)
  show "hasKey rows key \<longleftrightarrow> (\<exists>line\<in>set rows. HasPrefix line key)" by (rule hasKey_iff)
  show "hasKey rows key \<longleftrightarrow> (\<exists>line\<in>set rows. \<exists>rest. line = key @ rest)"
    by (simp add: hasKey_iff HasPrefix_iff)
qed code_simp+

theorem hasKey_raw_prefix_witness:
  "hasKey [''mode: none'', ''version: STSv1''] ''version''
   \<and> \<not> hasKey [''mode: none'', '' version: STSv1''] ''version''"
  using hasKey_raw_prefix [of "[''mode: none'', ''version: STSv1'']" "''version''"]
        hasKey_raw_prefix [of "[''mode: none'', '' version: STSv1'']" "''version''"]
  by (simp add: HasPrefix_def del: hasKey.simps)

text \<open>
  C8, as amended (what \<open>allKeys\<close> and \<open>valuesForKey\<close> return). \<open>allKeys\<close> returns the
  empty string followed by the non-empty trimmed keys of the lines, in document order,
  where the key of a line is its text before its first colon (the whole line when it has
  none). When every line that starts with the key contains a colon, \<open>valuesForKey\<close>
  returns the empty string followed by the values of the lines that start with the key, in
  document order, where the value of a line is the trimmed text between its first colon and
  its second colon or its end. Neither result has any other element.
\<close>

theorem allKeys_valuesForKey_contents:
  "allKeys rows =
     Inr ('''' # filter (\<lambda>k. k \<noteq> [])
                   (map (\<lambda>line. TrimSpace (takeWhile (\<lambda>c. c \<noteq> colon) line)) rows))
   \<and> ((\<forall>line\<in>set rows. HasPrefix line key \<longrightarrow> colon \<in> set line) \<longrightarrow>
        valuesForKey rows key =
          Inr ('''' # map (\<lambda>line. TrimSpace (takeWhile (\<lambda>c. c \<noteq> colon)
                                               (tl (dropWhile (\<lambda>c. c \<noteq> colon) line))))
                        (filter (\<lambda>line. HasPrefix line key) rows)))"
  by (simp add: allKeys_eq valuesForKey_def make_strings_def valuesForKey_loop_ok)

theorem allKeys_valuesForKey_contents_witness:
  "allKeys [''version: STSv1'', ''mx: a'', '' : x'', ''mx:b '']
     = Inr ['''', ''version'', ''mx'', ''mx'']
   \<and> valuesForKey [''version: STSv1'', ''mx: a'', '' : x'', ''mx:b ''] ''mx''
       = Inr ['''', ''a'', ''b'']"
proof -
  have t: "TrimSpace ''version'' = ''version''" "TrimSpace ''mx'' = ''mx''"
    "TrimSpace '' '' = []" "TrimSpace '' a'' = ''a''" "TrimSpace ''b '' = ''b''"
    by code_simp+
  show ?thesis
    using allKeys_valuesForKey_contents
            [of "[''version: STSv1'', ''mx: a'', '' : x'', ''mx:b '']" "''mx''"]
    by (simp add: HasPrefix_def t)
qed

text \<open>
  The claim as it was stated fails on the one-line policy \<open>mx: a\<close>: both results start
  with an empty string, which is neither a key nor a value of the line.
\<close>

theorem allKeys_valuesForKey_leading_empty_counterexample:
  "allKeys [''mx: a''] = Inr ['''', ''mx'']
   \<and> valuesForKey [''mx: a''] ''mx'' = Inr ['''', ''a'']"
  by code_simp

text \<open>
  C9, as amended (when \<open>mxHasMatch\<close> panics). \<open>mxHasMatch\<close> returns a result whenever the
  host contains a dot or no declared pattern begins with a dot. It panics, with the slice
  bounds out of range, exactly when the host contains no dot, some declared pattern begins
  with a dot, and no pattern before the first such pattern is the host itself; it never
  panics in another way.
\<close>

theorem mxHasMatch_panic_condition:
  "((dot \<in> set host \<or> (\<forall>mx\<in>set declared. \<not> HasPrefix mx ''.'')) \<longrightarrow>
      (\<exists>b. mxHasMatch declared host = Inr b))
   \<and> (mxHasMatch declared host = Inl SliceBoundsOutOfRange \<longleftrightarrow>
        dot \<notin> set host \<and> (\<exists>mx\<in>set declared. HasPrefix mx ''.'')
        \<and> host \<notin> set (takeWhile (\<lambda>mx. \<not> HasPrefix mx ''.'') declared))
   \<and> mxHasMatch declared host \<noteq> Inl IndexOutOfRange"
proof (cases "dot \<in> set host")
  case True
  then show ?thesis by (simp add: mxHasMatch_dotted)
next
  case False
  then show ?thesis
    by (cases "\<forall>mx\<in>set declared. \<not> HasPrefix mx ''.''")
      (auto simp: mxHasMatch_dotfree mxHasMatch_no_wildcard)
qed

theorem mxHasMatch_panic_condition_witness:
  "dot \<in> set ''mail.example.com''
   \<and> (\<exists>b. mxHasMatch ['''', ''.example.com''] ''mail.example.com'' = Inr b)
   \<and> mxHasMatch ['''', ''.example.com''] ''localhost'' = Inl SliceBoundsOutOfRange
   \<and> mxHasMatch ['''', ''localhost'', ''.example.com''] ''localhost''
         \<noteq> Inl SliceBoundsOutOfRange"
  using mxHasMatch_panic_condition [of "''mail.example.com''" "['''', ''.example.com'']"]
        mxHasMatch_panic_condition [of "''localhost''" "['''', ''.example.com'']"]
        mxHasMatch_panic_condition [of "''localhost''" "['''', ''localhost'', ''.example.com'']"]
  by (simp add: HasPrefix_def del: mxHasMatch.simps)

text \<open>
  The claim as it was stated fails for the patterns \<open>localhost\<close>, \<open>.example.com\<close> and
  the host \<open>localhost\<close>: a pattern begins with a dot and the host has none, yet the loop
  returns true at the first pattern and never reaches the slice expression.
\<close>

theorem mxHasMatch_wildcard_dotfree_counterexample:
  "HasPrefix ''.example.com'' ''.''
   \<and> dot \<notin> set ''localhost''
   \<and> mxHasMatch [''localhost'', ''.example.com''] ''localhost'' = Inr True"
  by (simp add: HasPrefix_def)

text \<open>
  C10 (an absent key reads as the empty string, so a policy with no line starting with
  \<open>mode\<close> gets the invalid-mode finding for the empty value). The lookup itself does
  return the empty string, but the run does not always reach the mode check: for the policy
  \<open>version=STSv1\<close>, \<open>max_age=86400\<close>, which has no line starting with \<open>mode\<close>, the
  lookup of \<open>version\<close> panics first and no finding is printed at all.
\<close>

theorem version_panic_hides_mode_finding:
  "\<not> hasKey (Split (''version=STSv1'' @ [CHR 0x0A] @ ''max_age=86400'') [CHR 0x0A]) ''mode''
   \<and> valueForKey (Split (''version=STSv1'' @ [CHR 0x0A] @ ''max_age=86400'') [CHR 0x0A]) ''mode''
       = Inr ''''
   \<and> validate (''version=STSv1'' @ [CHR 0x0A] @ ''max_age=86400'') (mxRecords [])
       = ([], Some IndexOutOfRange)"
  by code_simp

end
